theory Spec2Isabelle
  imports Complex_Main "HOL-Library.AList" "HOL-Library.Word"
begin

section \<open>Register bookkeeping of \<open>cirq_ft/infra/gate_with_registers.py\<close>\<close>

text \<open>
  The embedding follows the Python module function by function. Python integers are
  \<open>int\<close>, sequences are lists, a \<open>dict\<close> is an association list in insertion order
  (\<open>AList.update\<close> overwrites the value of a key that is present and appends a new key,
  as a \<open>dict\<close> store does), and every \<open>raise\<close>, failed \<open>assert\<close> and failing
  subscript is the \<open>Inl\<close> branch of a sum.
\<close>

subsection \<open>Python values used by the module\<close>

datatype error = ValueError | IndexError | KeyError | AssertionError | TypeError

text \<open>
  A slice object \<open>slice(start, stop, step)\<close>; each part may be \<open>None\<close>.
  \<open>slice_elems\<close> is \<open>xs[start:stop:step]\<close> for a step that is not zero: the bounds are
  clipped to the sequence as CPython does, so the subscript itself never fails.
  A zero step raises \<open>ValueError\<close>.
\<close>

datatype slice = Slice "int option" "int option" "int option"

definition slice_elems :: "'a list \<Rightarrow> int option \<Rightarrow> int option \<Rightarrow> int \<Rightarrow> 'a list" where
  "slice_elems xs a b st =
     (let n = int (length xs);
          lower = (if st < 0 then - 1 else 0);
          upper = (if st < 0 then n - 1 else n);
          s = (case a of None \<Rightarrow> (if st < 0 then upper else lower)
               | Some i \<Rightarrow> (if i < 0 then max (i + n) lower else min i upper));
          e = (case b of None \<Rightarrow> (if st < 0 then lower else upper)
               | Some j \<Rightarrow> (if j < 0 then max (j + n) lower else min j upper));
          len = (if st < 0 then (if e < s then (s - e - 1) div (- st) + 1 else 0)
                 else (if s < e then (e - s - 1) div st + 1 else 0))
      in map (\<lambda>k. xs ! nat (s + int k * st)) [0..<nat len])"

definition getslice :: "'a list \<Rightarrow> slice \<Rightarrow> error + 'a list" where
  "getslice xs sl =
     (case sl of Slice a b c \<Rightarrow>
        (let st = (case c of None \<Rightarrow> 1 | Some s \<Rightarrow> s)
         in if st = 0 then Inl ValueError else Inr (slice_elems xs a b st)))"

text \<open>\<open>xs[i]\<close> for an integer \<open>i\<close>: negative positions count from the end.\<close>

definition getindex :: "'a list \<Rightarrow> int \<Rightarrow> error + 'a" where
  "getindex xs i =
     (let n = int (length xs); j = (if i < 0 then i + n else i)
      in if 0 \<le> j \<and> j < n then Inr (xs ! nat j) else Inl IndexError)"

subsection \<open>Register\<close>

text \<open>
  \<open>@attr.frozen class Register\<close>: a name and a bit size. The class validates nothing, so
  \<open>bitsize\<close> is any Python integer.
\<close>

record Register =
  name :: string
  bitsize :: int

subsection \<open>Registers\<close>

text \<open>
  \<open>Registers.__init__\<close> keeps the tuple of registers and the dictionary from name to
  register, and raises \<open>ValueError\<close> when the two differ in length.
\<close>

record 'r Registers =
  registers :: "'r list"
  register_dict :: "(string \<times> 'r) list"

definition name_dict :: "'a Register_scheme list \<Rightarrow> (string \<times> 'a Register_scheme) list" where
  "name_dict regs = foldl (\<lambda>d r. AList.update (name r) r d) [] regs"

definition Registers_init ::
  "'a Register_scheme list \<Rightarrow> error + 'a Register_scheme Registers" where
  "Registers_init regs =
     (let d = name_dict regs
      in if length regs \<noteq> length d then Inl ValueError
         else Inr \<lparr>registers = regs, register_dict = d\<rparr>)"

text \<open>The property \<open>bitsize\<close> of the collection: the sum of the members' sizes.\<close>

definition total_bitsize :: "'a Register_scheme Registers \<Rightarrow> int" where
  "total_bitsize self = sum_list (map bitsize (registers self))"

text \<open>
  \<open>split_qubits\<close>: the loop carries the dictionary built so far and \<open>base\<close>.
\<close>

fun split_loop ::
  "'q list \<Rightarrow> 'a Register_scheme list \<Rightarrow> (string \<times> 'q list) list \<Rightarrow> int
     \<Rightarrow> (string \<times> 'q list) list" where
  "split_loop qubits [] qubit_regs base = qubit_regs"
| "split_loop qubits (reg # regs) qubit_regs base =
     split_loop qubits regs
       (AList.update (name reg)
          (slice_elems qubits (Some base) (Some (base + bitsize reg)) 1) qubit_regs)
       (base + bitsize reg)"

definition split_qubits ::
  "'a Register_scheme Registers \<Rightarrow> 'q list \<Rightarrow> (string \<times> 'q list) list" where
  "split_qubits self qubits = split_loop qubits (registers self) [] 0"

text \<open>
  \<open>merge_qubits(self, **qubit_regs)\<close>: a keyword argument is one handle or a sequence
  of handles; both \<open>assert\<close>s raise \<open>AssertionError\<close>. The dictionary reaches the
  method only as keyword arguments (\<open>r.merge_qubits(**d)\<close>, also from
  \<open>on_registers\<close>), and Python binds them against the parameter \<open>self\<close> first: a key
  \<open>self\<close> raises \<open>TypeError\<close> (multiple values for the argument) before the body runs.
  \<open>merge_loop\<close> is the body.
\<close>

datatype 'q qarg = Single 'q | Seq "'q list"

fun merge_loop ::
  "'a Register_scheme list \<Rightarrow> (string \<times> 'q qarg) list \<Rightarrow> 'q list \<Rightarrow> error + 'q list" where
  "merge_loop [] qubit_regs ret = Inr ret"
| "merge_loop (reg # regs) qubit_regs ret =
     (case map_of qubit_regs (name reg) of
        None \<Rightarrow> Inl AssertionError
      | Some a \<Rightarrow>
          (let qubits = (case a of Single q \<Rightarrow> [q] | Seq qs \<Rightarrow> qs)
           in if int (length qubits) \<noteq> bitsize reg then Inl AssertionError
              else merge_loop regs qubit_regs (ret @ qubits)))"

definition merge_qubits ::
  "'a Register_scheme Registers \<Rightarrow> (string \<times> 'q qarg) list \<Rightarrow> error + 'q list" where
  "merge_qubits self qubit_regs =
     (if ''self'' \<in> set (map fst qubit_regs) then Inl TypeError
      else merge_loop (registers self) qubit_regs [])"

text \<open>
  The round trip \<open>merge_qubits(**split_qubits(qs))\<close>: every value of the split
  dictionary is a sequence.
\<close>

definition as_kwargs :: "(string \<times> 'q list) list \<Rightarrow> (string \<times> 'q qarg) list" where
  "as_kwargs d = map (\<lambda>(k, v). (k, Seq v)) d"

subsection \<open>SelectionRegister\<close>

text \<open>
  \<open>SelectionRegister\<close> adds \<open>iteration_length\<close>, whose validator raises \<open>ValueError\<close>
  unless \<open>0 <= value <= 2**self.bitsize\<close>. For a negative \<open>bitsize\<close> Python's
  \<open>2**bitsize\<close> is the fraction \<open>1 / 2**(-bitsize)\<close> (as a float, compared exactly
  with the integer \<open>value\<close>), hence the rational power here.
\<close>

record SelectionRegister = Register +
  iteration_length :: int

definition validate_iteration_length :: "int \<Rightarrow> int \<Rightarrow> error + unit" where
  "validate_iteration_length bs val =
     (if \<not> (0 \<le> val \<and> of_int val \<le> (2::rat) powi bs) then Inl ValueError else Inr ())"

definition SelectionRegister_init :: "string \<Rightarrow> int \<Rightarrow> int \<Rightarrow> error + SelectionRegister" where
  "SelectionRegister_init nm bs il =
     (case validate_iteration_length bs il of
        Inl e \<Rightarrow> Inl e
      | Inr _ \<Rightarrow> Inr \<lparr>name = nm, bitsize = bs, iteration_length = il\<rparr>)"

subsection \<open>SelectionRegisters\<close>

text \<open>
  \<open>SelectionRegisters.__init__\<close> runs \<open>Registers.__init__\<close> and then computes, with
  numpy, the suffix products of the iteration lengths with a trailing 1:
  \<open>np.append(np.multiply.accumulate(lengths[::-1])[::-1], [1])\<close>.
  numpy gives a non-empty tuple of Python integers that all lie in
  \<open>[-2^63, 2^63)\<close> the element type \<open>int64\<close>, whose products and sums wrap around
  modulo \<open>2^64\<close>; the entries are therefore 64-bit words, read back as signed
  integers with \<open>sint\<close>. (This is numpy where the C type \<open>long\<close> has 64 bits, as
  on Linux. For the empty tuple numpy's array holds the single float \<open>1.0\<close>, the
  word \<open>1\<close> here. Lengths of \<open>2^63\<close> and more give the array another element
  type, and a value passed to \<open>to_flat_idx\<close> outside \<open>[-2^63, 2^63)\<close> is not an
  \<open>int64\<close> either: both are outside this model, and the lemmas below that speak of
  the general case assume lengths and values inside \<open>int64\<close>.) The argument \<open>registers\<close> is a sequence that can
  be iterated more than once, a list or a tuple, as \<open>build\<close> and \<open>__getitem__\<close> pass.
\<close>

type_synonym int64 = "64 word"

definition fits_int64 :: "int \<Rightarrow> bool" where
  "fits_int64 v = (- (2 ^ 63) \<le> v \<and> v < 2 ^ 63)"

fun accumulate_from :: "int64 \<Rightarrow> int64 list \<Rightarrow> int64 list" where
  "accumulate_from a [] = []"
| "accumulate_from a (x # xs) = (a * x) # accumulate_from (a * x) xs"

definition multiply_accumulate :: "int64 list \<Rightarrow> int64 list" where
  "multiply_accumulate xs = (case xs of [] \<Rightarrow> [] | x # xs' \<Rightarrow> x # accumulate_from x xs')"

record 'r SelectionRegisters = "'r Registers" +
  iteration_lengths :: "int list"
  suffix_prod :: "int64 list"

definition SelectionRegisters_init ::
  "SelectionRegister list \<Rightarrow> error + SelectionRegister SelectionRegisters" where
  "SelectionRegisters_init regs =
     (case Registers_init regs of
        Inl e \<Rightarrow> Inl e
      | Inr base \<Rightarrow>
          (let ls = map iteration_length regs;
               sp = rev (multiply_accumulate (map word_of_int (rev ls))) @ [1]
           in Inr \<lparr>registers = registers base, register_dict = register_dict base,
                   iteration_lengths = ls, suffix_prod = sp\<rparr>))"

text \<open>
  \<open>to_flat_idx\<close>: the \<open>assert\<close> on the number of values, then
  \<open>sum(v * self._suffix_prod[i + 1] for i, v in enumerate(selection_vals))\<close>.
  The loop carries the position \<open>i\<close> and the running sum; a subscript beyond the
  table raises \<open>IndexError\<close>. The products and the sum are \<open>int64\<close> arithmetic.
\<close>

fun flat_sum :: "int64 list \<Rightarrow> nat \<Rightarrow> int list \<Rightarrow> int64 \<Rightarrow> error + int64" where
  "flat_sum sp i [] acc = Inr acc"
| "flat_sum sp i (v # vs) acc =
     (if i + 1 < length sp then flat_sum sp (i + 1) vs (acc + word_of_int v * sp ! (i + 1))
      else Inl IndexError)"

definition to_flat_idx ::
  "SelectionRegister SelectionRegisters \<Rightarrow> int list \<Rightarrow> error + int" where
  "to_flat_idx self selection_vals =
     (if length selection_vals \<noteq> length (registers self) then Inl AssertionError
      else (case flat_sum (suffix_prod self) 0 selection_vals 0 of
              Inl e \<Rightarrow> Inl e
            | Inr s \<Rightarrow> Inr (sint s)))"

text \<open>\<open>total_iteration_size\<close>: \<open>int(np.product(self.iteration_lengths))\<close>.\<close>

definition total_iteration_size :: "SelectionRegister SelectionRegisters \<Rightarrow> int" where
  "total_iteration_size self =
     sint (prod_list (map word_of_int (iteration_lengths self) :: int64 list))"

subsection \<open>The flat index in the words of the specification\<close>

text \<open>
  For comparison with the code: the index \<open>sum(values[i] * suffix[i+1])\<close> with
  \<open>suffix[i] = product(iteration_lengths[i:])\<close> over the unbounded integers, the
  enumeration of all value tuples in lexicographic order (the nested loops of the
  docstring, the first register outermost), and the tuples with one value per register,
  each within \<open>[0, iteration_length)\<close>.
\<close>

definition row_major_index :: "int list \<Rightarrow> int list \<Rightarrow> int" where
  "row_major_index ls vs =
     sum_list (map (\<lambda>i. vs ! i * prod_list (drop (i + 1) ls)) [0..<length vs])"

fun index_tuples :: "int list \<Rightarrow> int list list" where
  "index_tuples [] = [[]]"
| "index_tuples (l # ls) =
     concat (map (\<lambda>v. map ((#) v) (index_tuples ls)) (map int [0..<nat l]))"

definition in_range :: "int list \<Rightarrow> int list \<Rightarrow> bool" where
  "in_range ls vs = list_all2 (\<lambda>v l. 0 \<le> v \<and> v < l) vs ls"

subsection \<open>Subscripts on the collections\<close>

text \<open>
  \<open>__getitem__\<close> dispatches on the type of the key with \<open>isinstance\<close>, in the order
  \<open>slice\<close>, \<open>int\<close>, \<open>str\<close>; \<open>KOther\<close> stands for a key of any other type. The result
  is one register or a new collection.
\<close>

datatype key = KSlice slice | KInt int | KStr string | KOther

datatype ('r, 'c) item = Reg 'r | Regs 'c

definition Registers_getitem ::
  "'a Register_scheme Registers \<Rightarrow> key
     \<Rightarrow> error + ('a Register_scheme, 'a Register_scheme Registers) item" where
  "Registers_getitem self k =
     (case k of
        KSlice sl \<Rightarrow>
          (case getslice (registers self) sl of
             Inl e \<Rightarrow> Inl e
           | Inr rs \<Rightarrow> (case Registers_init rs of Inl e \<Rightarrow> Inl e | Inr c \<Rightarrow> Inr (Regs c)))
      | KInt i \<Rightarrow>
          (case getindex (registers self) i of Inl e \<Rightarrow> Inl e | Inr r \<Rightarrow> Inr (Reg r))
      | KStr s \<Rightarrow>
          (case map_of (register_dict self) s of None \<Rightarrow> Inl KeyError | Some r \<Rightarrow> Inr (Reg r))
      | KOther \<Rightarrow> Inl IndexError)"

definition SelectionRegisters_getitem ::
  "SelectionRegister SelectionRegisters \<Rightarrow> key
     \<Rightarrow> error + (SelectionRegister, SelectionRegister SelectionRegisters) item" where
  "SelectionRegisters_getitem self k =
     (case k of
        KSlice sl \<Rightarrow>
          (case getslice (registers self) sl of
             Inl e \<Rightarrow> Inl e
           | Inr rs \<Rightarrow>
               (case SelectionRegisters_init rs of Inl e \<Rightarrow> Inl e | Inr c \<Rightarrow> Inr (Regs c)))
      | KInt i \<Rightarrow>
          (case getindex (registers self) i of Inl e \<Rightarrow> Inl e | Inr r \<Rightarrow> Inr (Reg r))
      | KStr s \<Rightarrow>
          (case map_of (register_dict self) s of None \<Rightarrow> Inl KeyError | Some r \<Rightarrow> Inr (Reg r))
      | KOther \<Rightarrow> Inl IndexError)"

subsection \<open>Named qubits\<close>

text \<open>
  Modelled from the spec: \<open>cirq.NamedQubit\<close> and \<open>cirq.NamedQubit.range\<close>, which the
  module calls and which are defined elsewhere in the repository. The spec has handles
  as opaque identifiers with equality, \<open>uniquely-named\<close>, and the range as
  \<open>an indexed range sharing the register's name as a prefix\<close>; the module's own
  docstring prints \<open>NamedQubit.range(2, prefix='x')\<close> as \<open>x0\<close>, \<open>x1\<close>. So a handle is
  its name, and the range of \<open>n\<close> handles has the names \<open>prefix + str(i)\<close> for
  \<open>i\<close> in \<open>range(n)\<close>, with \<open>str\<close> the decimal numeral.
\<close>

datatype Qid = NamedQubit string

definition digit_char :: "nat \<Rightarrow> char" where
  "digit_char d = ''0123456789'' ! d"

function str_nat :: "nat \<Rightarrow> string" where
  "str_nat n = (if n < 10 then [digit_char n] else str_nat (n div 10) @ [digit_char (n mod 10)])"
  by pat_completeness auto
termination
  by (relation "measure (\<lambda>n. n)") auto

declare str_nat.simps [simp del]

definition NamedQubit_range :: "int \<Rightarrow> string \<Rightarrow> Qid list" where
  "NamedQubit_range n prefix = map (\<lambda>i. NamedQubit (prefix @ str_nat i)) [0..<nat n]"

text \<open>A name that is empty or whose last character is not a decimal digit.\<close>

definition no_digit_end :: "string \<Rightarrow> bool" where
  "no_digit_end nm = (nm = [] \<or> last nm \<notin> set ''0123456789'')"

text \<open>\<open>get_named_qubits\<close>, with its local function \<open>qubits_for_reg\<close>.\<close>

definition qubits_for_reg :: "string \<Rightarrow> int \<Rightarrow> Qid list" where
  "qubits_for_reg nm bs = (if bs = 1 then [NamedQubit nm] else NamedQubit_range bs nm)"

definition get_named_qubits :: "'a Register_scheme Registers \<Rightarrow> (string \<times> Qid list) list" where
  "get_named_qubits self =
     foldl (\<lambda>d reg. AList.update (name reg) (qubits_for_reg (name reg) (bitsize reg)) d) []
       (registers self)"

subsection \<open>GateWithRegisters\<close>

text \<open>
  \<open>_circuit_diagram_info_\<close> of a gate whose class is named \<open>class_name\<close> and whose
  \<open>registers\<close> property returns \<open>regs\<close>. \<open>[reg.name] * reg.bitsize\<close> is empty for a
  size that is not positive; the store \<open>wire_symbols[0] = ...\<close> raises \<open>IndexError\<close> on
  an empty list. The result is the list of wire symbols handed to
  \<open>cirq.CircuitDiagramInfo\<close>.
\<close>

fun wire_loop :: "'a Register_scheme list \<Rightarrow> string list \<Rightarrow> string list" where
  "wire_loop [] wire_symbols = wire_symbols"
| "wire_loop (reg # regs) wire_symbols =
     wire_loop regs (wire_symbols @ replicate (nat (bitsize reg)) (name reg))"

definition circuit_diagram_info ::
  "string \<Rightarrow> 'a Register_scheme Registers \<Rightarrow> error + string list" where
  "circuit_diagram_info class_name regs =
     (let wire_symbols = wire_loop (registers regs) []
      in if wire_symbols = [] then Inl IndexError
         else Inr (wire_symbols[0 := class_name]))"

text \<open>\<open>_num_qubits_\<close> is \<open>self.registers.bitsize\<close>.\<close>

definition num_qubits :: "'a Register_scheme Registers \<Rightarrow> int" where
  "num_qubits regs = total_bitsize regs"

section \<open>Construction\<close>

lemma name_dict_foldl_keys:
  "distinct (map fst d) \<Longrightarrow>
     distinct (map fst (foldl (\<lambda>d r. AList.update (name r) r d) d regs)) \<and>
     set (map fst (foldl (\<lambda>d r. AList.update (name r) r d) d regs))
       = set (map fst d) \<union> name ` set regs"
proof (induction regs arbitrary: d)
  case Nil
  then show ?case by simp
next
  case (Cons r regs)
  have "distinct (map fst (AList.update (name r) r d))"
    using Cons.prems by (simp add: distinct_update)
  from Cons.IH [OF this] show ?case
    by (auto simp: dom_update)
qed

lemma length_name_dict: "length (name_dict regs) = card (name ` set regs)"
proof -
  have d: "distinct (map fst (name_dict regs))"
    and s: "set (map fst (name_dict regs)) = name ` set regs"
    using name_dict_foldl_keys [of "[]" regs] by (simp_all add: name_dict_def)
  have "length (name_dict regs) = length (map fst (name_dict regs))" by simp
  also have "\<dots> = card (set (map fst (name_dict regs)))"
    using d by (simp only: distinct_card)
  finally show ?thesis using s by simp
qed

lemma length_name_dict_eq:
  "length regs = length (name_dict regs) \<longleftrightarrow> distinct (map name regs)"
proof -
  have "card (name ` set regs) = card (set (map name regs))" by simp
  then have "length (name_dict regs) = card (set (map name regs))"
    by (simp only: length_name_dict)
  moreover have "card (set (map name regs)) = length (map name regs)
      \<longleftrightarrow> distinct (map name regs)"
    by (metis card_distinct distinct_card)
  ultimately show ?thesis by (metis length_map)
qed

lemma Registers_init_eq:
  "Registers_init regs =
     (if distinct (map name regs) then Inr \<lparr>registers = regs, register_dict = name_dict regs\<rparr>
      else Inl ValueError)"
  using length_name_dict_eq [of regs] by (simp add: Registers_init_def Let_def)

lemma SelectionRegisters_init_eq:
  "SelectionRegisters_init regs =
     (if distinct (map name regs)
      then Inr \<lparr>registers = regs, register_dict = name_dict regs,
                iteration_lengths = map iteration_length regs,
                suffix_prod =
                  rev (multiply_accumulate (map word_of_int (rev (map iteration_length regs))))
                    @ [1]\<rparr>
      else Inl ValueError)"
  by (simp add: SelectionRegisters_init_def Registers_init_eq Let_def)

text \<open>
  Claim C3. Constructing a \<open>Registers\<close> or a \<open>SelectionRegisters\<close> from registers two
  of which share a name raises \<open>ValueError\<close>; with names that are all different the
  construction succeeds and holds the registers given.
\<close>

theorem construction_unique_names:
  "(\<not> distinct (map name regs) \<longrightarrow> Registers_init regs = Inl ValueError) \<and>
   (distinct (map name regs) \<longrightarrow> (\<exists>r. Registers_init regs = Inr r \<and> registers r = regs)) \<and>
   (\<not> distinct (map name sregs) \<longrightarrow> SelectionRegisters_init sregs = Inl ValueError) \<and>
   (distinct (map name sregs) \<longrightarrow>
      (\<exists>r. SelectionRegisters_init sregs = Inr r \<and> registers r = sregs))"
  by (simp add: Registers_init_eq SelectionRegisters_init_eq)

theorem construction_unique_names_witness:
  "\<not> distinct (map name [\<lparr>name = ''x'', bitsize = 1\<rparr>, \<lparr>name = ''x'', bitsize = 2\<rparr>]) \<and>
   Registers_init [\<lparr>name = ''x'', bitsize = 1\<rparr>, \<lparr>name = ''x'', bitsize = 2\<rparr>] = Inl ValueError \<and>
   distinct (map name [\<lparr>name = ''x'', bitsize = 1, iteration_length = 2\<rparr>,
                       \<lparr>name = ''y'', bitsize = 2, iteration_length = 3\<rparr>]) \<and>
   (\<exists>r. SelectionRegisters_init [\<lparr>name = ''x'', bitsize = 1, iteration_length = 2\<rparr>,
                                 \<lparr>name = ''y'', bitsize = 2, iteration_length = 3\<rparr>] = Inr r)"
  using construction_unique_names
    [of "[\<lparr>name = ''x'', bitsize = 1\<rparr>, \<lparr>name = ''x'', bitsize = 2\<rparr>]"
        "[\<lparr>name = ''x'', bitsize = 1, iteration_length = 2\<rparr>,
          \<lparr>name = ''y'', bitsize = 2, iteration_length = 3\<rparr>]"]
  by auto

lemma pow2_int: "0 \<le> b \<Longrightarrow> (2::rat) powi b = of_int (2 ^ nat b)"
  by (simp add: power_int_def)

lemma validate_nonneg_bitsize:
  "0 \<le> b \<Longrightarrow>
     validate_iteration_length b v
       = (if 0 \<le> v \<and> v \<le> 2 ^ nat b then Inr () else Inl ValueError)"
  unfolding validate_iteration_length_def pow2_int
  by (simp only: of_int_le_iff) auto

text \<open>
  Claim C4. Constructing a \<open>SelectionRegister\<close> raises \<open>ValueError\<close> exactly when
  \<open>iteration_length\<close> is outside \<open>[0, 2^bitsize]\<close>, and succeeds otherwise; for every
  bit size \<open>k\<close> the length \<open>2^k + 1\<close> is refused and the lengths \<open>0\<close> and \<open>2^k\<close> are
  accepted.
\<close>

theorem SelectionRegister_init_range:
  "(SelectionRegister_init nm b v = Inl ValueError
      \<longleftrightarrow> \<not> (0 \<le> v \<and> of_int v \<le> (2::rat) powi b)) \<and>
   (0 \<le> v \<and> of_int v \<le> (2::rat) powi b \<longrightarrow>
      SelectionRegister_init nm b v = Inr \<lparr>name = nm, bitsize = b, iteration_length = v\<rparr>) \<and>
   SelectionRegister_init nm (int k) (2 ^ k + 1) = Inl ValueError \<and>
   SelectionRegister_init nm (int k) 0
     = Inr \<lparr>name = nm, bitsize = int k, iteration_length = 0\<rparr> \<and>
   SelectionRegister_init nm (int k) (2 ^ k)
     = Inr \<lparr>name = nm, bitsize = int k, iteration_length = 2 ^ k\<rparr>"
  by (simp add: SelectionRegister_init_def validate_nonneg_bitsize)
     (simp add: validate_iteration_length_def)

theorem SelectionRegister_init_range_witness:
  "(0::int) \<le> 5 \<and> of_int 5 \<le> (2::rat) powi 3 \<and>
   SelectionRegister_init ''sel'' 3 5 = Inr \<lparr>name = ''sel'', bitsize = 3, iteration_length = 5\<rparr> \<and>
   \<not> (of_int 9 \<le> (2::rat) powi 3) \<and>
   SelectionRegister_init ''sel'' 3 9 = Inl ValueError"
  using SelectionRegister_init_range [of "''sel''" 3 5 0]
        SelectionRegister_init_range [of "''sel''" 3 9 0]
  by simp

section \<open>Flat indices\<close>

text \<open>
  Claim C10. A \<open>SelectionRegisters\<close> built from no registers is accepted; on it
  \<open>to_flat_idx()\<close> with no values returns 0 and \<open>total_iteration_size\<close> is 1.
\<close>

theorem empty_SelectionRegisters:
  "\<exists>r. SelectionRegisters_init [] = Inr r \<and> registers r = [] \<and>
       to_flat_idx r [] = Inr 0 \<and> total_iteration_size r = 1"
  by (simp add: SelectionRegisters_init_eq to_flat_idx_def total_iteration_size_def)

text \<open>
  Claim C6. \<open>total_iteration_size\<close> is to be the exact product of the iteration
  lengths, however large they are. The code multiplies in \<open>int64\<close>: for two registers
  of 32 bits with the full iteration length \<open>2^32\<close> each, both accepted by the
  validator, the product is \<open>2^64\<close> and \<open>total_iteration_size\<close> is 0.
\<close>

theorem total_iteration_size_overflow:
  "SelectionRegister_init ''a'' 32 (2 ^ 32)
     = Inr \<lparr>name = ''a'', bitsize = 32, iteration_length = 2 ^ 32\<rparr> \<and>
   SelectionRegister_init ''b'' 32 (2 ^ 32)
     = Inr \<lparr>name = ''b'', bitsize = 32, iteration_length = 2 ^ 32\<rparr> \<and>
   (\<exists>r. SelectionRegisters_init
           [\<lparr>name = ''a'', bitsize = 32, iteration_length = 2 ^ 32\<rparr>,
            \<lparr>name = ''b'', bitsize = 32, iteration_length = 2 ^ 32\<rparr>] = Inr r \<and>
         iteration_lengths r = [2 ^ 32, 2 ^ 32] \<and>
         prod_list (iteration_lengths r) = 2 ^ 64 \<and>
         total_iteration_size r = 0)"
  by (simp add: SelectionRegisters_init_eq total_iteration_size_def
        SelectionRegister_init_def validate_iteration_length_def)

text \<open>
  Claim C2. \<open>to_flat_idx\<close> is to return the row-major index
  \<open>sum(values[i] * product(L(i+1..n-1)))\<close> for every \<open>SelectionRegisters\<close>. The code
  multiplies and adds in \<open>int64\<close>: with the lengths \<open>(2^32, 2^32)\<close> the values
  \<open>(2^31, 0)\<close> are in range, their row-major index is \<open>2^31 * 2^32 = 2^63\<close>, and
  \<open>to_flat_idx\<close> returns \<open>-2^63\<close>.
\<close>

theorem to_flat_idx_overflow:
  "\<exists>r. SelectionRegisters_init
           [\<lparr>name = ''a'', bitsize = 32, iteration_length = 2 ^ 32\<rparr>,
            \<lparr>name = ''b'', bitsize = 32, iteration_length = 2 ^ 32\<rparr>] = Inr r \<and>
         iteration_lengths r = [2 ^ 32, 2 ^ 32] \<and>
         to_flat_idx r [2 ^ 31, 0] = Inr (- (2 ^ 63)) \<and>
         (2 ^ 31 * 2 ^ 32 + 0 * 1 :: int) = 2 ^ 63"
  by (simp add: SelectionRegisters_init_eq to_flat_idx_def multiply_accumulate_def)

section \<open>Subscripts\<close>

text \<open>
  Claim C7, as amended. A key that is neither a slice, an integer nor a string makes
  \<open>__getitem__\<close> of \<open>Registers\<close> and of \<open>SelectionRegisters\<close> raise \<open>IndexError\<close>
  (an index error, not a type error).
\<close>

theorem getitem_unsupported_key:
  "Registers_getitem regs KOther = Inl IndexError \<and>
   SelectionRegisters_getitem sregs KOther = Inl IndexError"
  by (simp add: Registers_getitem_def SelectionRegisters_getitem_def)

text \<open>
  The claim as stated asks for a type error: on the collection built from the one
  register \<open>x\<close> the unsupported key does not raise \<open>TypeError\<close>.
\<close>

theorem getitem_unsupported_key_counterexample:
  "Registers_init [\<lparr>name = ''x'', bitsize = 1\<rparr>]
     = Inr \<lparr>registers = [\<lparr>name = ''x'', bitsize = 1\<rparr>],
            register_dict = [(''x'', \<lparr>name = ''x'', bitsize = 1\<rparr>)]\<rparr> \<and>
   Registers_getitem
       \<lparr>registers = [\<lparr>name = ''x'', bitsize = 1\<rparr>],
        register_dict = [(''x'', \<lparr>name = ''x'', bitsize = 1\<rparr>)]\<rparr> KOther
     \<noteq> Inl TypeError"
  by (simp add: Registers_getitem_def Registers_init_eq name_dict_def)

section \<open>Diagram labels\<close>

lemma wire_loop_concat:
  "wire_loop regs ws = ws @ concat (map (\<lambda>r. replicate (nat (bitsize r)) (name r)) regs)"
  by (induction regs arbitrary: ws) simp_all

lemma length_labels:
  "\<forall>r\<in>set regs. 0 \<le> bitsize r \<Longrightarrow>
     int (length (concat (map (\<lambda>r. replicate (nat (bitsize r)) (name r)) regs)))
       = sum_list (map bitsize regs)"
  by (induction regs) simp_all

lemma labels_with_title:
  assumes "\<forall>r\<in>set (registers regs). 0 \<le> bitsize r" and "1 \<le> total_bitsize regs"
  shows "\<exists>ws. circuit_diagram_info class_name regs = Inr ws \<and>
           int (length ws) = total_bitsize regs \<and>
           ws = class_name
                # tl (concat (map (\<lambda>r. replicate (nat (bitsize r)) (name r)) (registers regs)))"
proof -
  let ?ls = "concat (map (\<lambda>r. replicate (nat (bitsize r)) (name r)) (registers regs))"
  have len: "int (length ?ls) = total_bitsize regs"
    using assms(1) by (simp add: length_labels total_bitsize_def)
  from len assms(2) have "0 < int (length ?ls)" by linarith
  then have "0 < length ?ls" by linarith
  then have ne: "?ls \<noteq> []" by (rule length_greater_0_conv [THEN iffD1])
  then obtain l ls' where ls: "?ls = l # ls'" by (cases ?ls) auto
  have "circuit_diagram_info class_name regs = Inr (?ls[0 := class_name])"
    using ne by (simp add: circuit_diagram_info_def wire_loop_concat)
  then show ?thesis using len ls by simp
qed

lemma positive_sizes_total:
  assumes "regs \<noteq> []" and "\<forall>r\<in>set regs. 1 \<le> bitsize r"
  shows "1 \<le> sum_list (map bitsize regs)"
proof -
  from assms(1) obtain r rs where regs: "regs = r # rs" by (cases regs) auto
  have "0 \<le> sum_list (map bitsize rs)"
    using assms(2) regs by (intro sum_list_nonneg) auto
  moreover have "1 \<le> bitsize r" using assms(2) regs by simp
  ultimately show ?thesis using regs by simp
qed

text \<open>
  Claim C8. For a gate whose register collection is not empty, the register sizes being
  positive as the data model has them, the default diagram labels are exactly
  \<open>registers.bitsize\<close> many: each register's name repeated \<open>bitsize\<close> times, in
  declaration order, with the label at position 0 replaced by the class name. The same
  holds for sizes that are not negative once the total size is at least 1. On the empty
  collection the store into position 0 raises \<open>IndexError\<close>.
\<close>

theorem circuit_diagram_info_labels:
  "(registers regs \<noteq> [] \<and> (\<forall>r\<in>set (registers regs). 1 \<le> bitsize r) \<longrightarrow>
      (\<exists>ws. circuit_diagram_info class_name regs = Inr ws \<and>
           int (length ws) = total_bitsize regs \<and>
           ws = class_name
                # tl (concat (map (\<lambda>r. replicate (nat (bitsize r)) (name r)) (registers regs))))) \<and>
   ((\<forall>r\<in>set (registers regs). 0 \<le> bitsize r) \<and> 1 \<le> total_bitsize regs \<longrightarrow>
      (\<exists>ws. circuit_diagram_info class_name regs = Inr ws \<and>
           int (length ws) = total_bitsize regs \<and>
           ws = class_name
                # tl (concat (map (\<lambda>r. replicate (nat (bitsize r)) (name r)) (registers regs))))) \<and>
   (registers regs = [] \<longrightarrow> circuit_diagram_info class_name regs = Inl IndexError)"
proof (intro conjI impI)
  assume h: "registers regs \<noteq> [] \<and> (\<forall>r\<in>set (registers regs). 1 \<le> bitsize r)"
  then have "1 \<le> total_bitsize regs"
    unfolding total_bitsize_def by (intro positive_sizes_total) simp_all
  moreover have "\<forall>r\<in>set (registers regs). 0 \<le> bitsize r"
    using h by force
  ultimately show "(\<exists>ws. circuit_diagram_info class_name regs = Inr ws \<and>
           int (length ws) = total_bitsize regs \<and>
           ws = class_name
                # tl (concat (map (\<lambda>r. replicate (nat (bitsize r)) (name r)) (registers regs))))"
    by (intro labels_with_title) simp_all
next
  assume "(\<forall>r\<in>set (registers regs). 0 \<le> bitsize r) \<and> 1 \<le> total_bitsize regs"
  then show "(\<exists>ws. circuit_diagram_info class_name regs = Inr ws \<and>
           int (length ws) = total_bitsize regs \<and>
           ws = class_name
                # tl (concat (map (\<lambda>r. replicate (nat (bitsize r)) (name r)) (registers regs))))"
    by (intro labels_with_title) simp_all
next
  assume "registers regs = []"
  then show "circuit_diagram_info class_name regs = Inl IndexError"
    by (simp add: circuit_diagram_info_def)
qed

theorem circuit_diagram_info_labels_witness:
  "registers
       \<lparr>registers = [\<lparr>name = ''ctrl'', bitsize = 1\<rparr>, \<lparr>name = ''x'', bitsize = 2\<rparr>],
        register_dict = [(''ctrl'', \<lparr>name = ''ctrl'', bitsize = 1\<rparr>),
                         (''x'', \<lparr>name = ''x'', bitsize = 2\<rparr>)]\<rparr> \<noteq> [] \<and>
   map bitsize (registers
       \<lparr>registers = [\<lparr>name = ''ctrl'', bitsize = 1\<rparr>, \<lparr>name = ''x'', bitsize = 2\<rparr>],
        register_dict = [(''ctrl'', \<lparr>name = ''ctrl'', bitsize = 1\<rparr>),
                         (''x'', \<lparr>name = ''x'', bitsize = 2\<rparr>)]\<rparr>) = [1, 2] \<and>
   total_bitsize
       \<lparr>registers = [\<lparr>name = ''ctrl'', bitsize = 1\<rparr>, \<lparr>name = ''x'', bitsize = 2\<rparr>],
        register_dict = [(''ctrl'', \<lparr>name = ''ctrl'', bitsize = 1\<rparr>),
                         (''x'', \<lparr>name = ''x'', bitsize = 2\<rparr>)]\<rparr> = 3 \<and>
   circuit_diagram_info ''Swap''
       \<lparr>registers = [\<lparr>name = ''ctrl'', bitsize = 1\<rparr>, \<lparr>name = ''x'', bitsize = 2\<rparr>],
        register_dict = [(''ctrl'', \<lparr>name = ''ctrl'', bitsize = 1\<rparr>),
                         (''x'', \<lparr>name = ''x'', bitsize = 2\<rparr>)]\<rparr>
     = Inr [''Swap'', ''x'', ''x''] \<and>
   circuit_diagram_info ''Swap'' \<lparr>registers = [], register_dict = []\<rparr> = Inl IndexError"
  using circuit_diagram_info_labels [of
       "\<lparr>registers = [\<lparr>name = ''ctrl'', bitsize = 1\<rparr>, \<lparr>name = ''x'', bitsize = 2\<rparr>],
        register_dict = [(''ctrl'', \<lparr>name = ''ctrl'', bitsize = 1\<rparr>),
                         (''x'', \<lparr>name = ''x'', bitsize = 2\<rparr>)]\<rparr>" "''Swap''"]
    circuit_diagram_info_labels [of "\<lparr>registers = [], register_dict = []\<rparr>" "''Swap''"]
  by (simp add: total_bitsize_def numeral_2_eq_2)

text \<open>
  A collection whose registers all have a size of 0 or less has no label either, and the
  store fails in the same way.
\<close>

lemma circuit_diagram_info_no_position:
  "\<forall>r\<in>set (registers regs). bitsize r \<le> 0 \<Longrightarrow>
     circuit_diagram_info class_name regs = Inl IndexError"
  by (simp add: circuit_diagram_info_def wire_loop_concat)


section \<open>Splitting and merging\<close>

lemma map_nth_take_drop:
  "i + m \<le> length xs \<Longrightarrow> map (\<lambda>k. xs ! (i + k)) [0..<m] = take m (drop i xs)"
  by (rule nth_equalityI) simp_all

lemma length_slice_elems_1:
  "int (length (slice_elems xs (Some a) (Some b) 1)) =
     (let n = int (length xs);
          s = (if a < 0 then max (a + n) 0 else min a n);
          e = (if b < 0 then max (b + n) 0 else min b n)
      in if s < e then e - s else 0)"
  by (simp add: slice_elems_def Let_def)

lemma slice_elems_take_drop:
  assumes "0 \<le> a" and "0 \<le> b"
  shows "slice_elems xs (Some a) (Some (a + b)) 1 = take (nat b) (drop (nat a) xs)"
proof (cases "a < int (length xs)")
  case False
  then show ?thesis using assms by (simp add: slice_elems_def Let_def min_def)
next
  case True
  let ?m = "nat (min (a + b) (int (length xs)) - a)"
  have "slice_elems xs (Some a) (Some (a + b)) 1 = map (\<lambda>k. xs ! (nat a + k)) [0..<?m]"
    using assms True by (auto simp: slice_elems_def Let_def min_def nat_add_distrib)
  also have "\<dots> = take ?m (drop (nat a) xs)"
    using assms True by (intro map_nth_take_drop) (auto simp: min_def)
  also have "\<dots> = take (nat b) (drop (nat a) xs)"
    using assms True by (auto simp: min_def)
  finally show ?thesis .
qed

lemma split_loop_other:
  "k \<notin> name ` set regs \<Longrightarrow> map_of (split_loop qs regs d base) k = map_of d k"
  by (induction regs arbitrary: d base) (auto simp: update_conv)

lemma split_loop_has_entry:
  "k \<in> name ` set regs \<union> fst ` set d \<Longrightarrow> \<exists>sub. map_of (split_loop qs regs d base) k = Some sub"
proof (induction regs arbitrary: d base)
  case Nil
  then show ?case by (auto dest: weak_map_of_SomeI)
next
  case (Cons r regs)
  have "k \<in> name ` set regs \<union> fst ` set (AList.update (name r) (slice_elems qs (Some base) (Some (base + bitsize r)) 1) d)"
    using Cons.prems by (auto simp: dom_update)
  from Cons.IH [OF this] show ?case by simp
qed

lemma map_of_as_kwargs: "map_of (as_kwargs d) k = map_option Seq (map_of d k)"
  by (induction d) (auto simp: as_kwargs_def)

lemma merge_split_loop:
  assumes "distinct (map name regs)" and "\<forall>r\<in>set regs. 0 \<le> bitsize r" and "0 \<le> base"
    and "base + sum_list (map bitsize regs) \<le> int (length qs)"
    and "\<forall>r\<in>set regs. map_of D (name r) = map_of (split_loop qs regs d base) (name r)"
  shows "merge_loop regs (as_kwargs D) ret
           = Inr (ret @ take (nat (sum_list (map bitsize regs))) (drop (nat base) qs))"
  using assms
proof (induction regs arbitrary: d base ret)
  case Nil
  then show ?case by simp
next
  case (Cons r regs)
  let ?sl = "slice_elems qs (Some base) (Some (base + bitsize r)) 1"
  let ?d' = "AList.update (name r) ?sl d"
  have b0: "0 \<le> bitsize r" and rest0: "\<forall>r\<in>set regs. 0 \<le> bitsize r"
    using Cons.prems(2) by simp_all
  have sum0: "0 \<le> sum_list (map bitsize regs)"
    using rest0 by (intro sum_list_nonneg) auto
  have sl: "?sl = take (nat (bitsize r)) (drop (nat base) qs)"
    using Cons.prems(3) b0 by (rule slice_elems_take_drop)
  have fit: "base + bitsize r \<le> int (length qs)"
    using Cons.prems(4) sum0 by simp
  have len: "int (length ?sl) = bitsize r"
    using fit b0 Cons.prems(3) unfolding sl by simp
  have notin: "name r \<notin> name ` set regs"
    using Cons.prems(1) by auto
  have "map_of D (name r) = map_of (split_loop qs regs ?d' (base + bitsize r)) (name r)"
    using Cons.prems(5) by simp
  also have "\<dots> = Some ?sl"
    using notin by (simp add: split_loop_other update_conv)
  finally have look: "map_of (as_kwargs D) (name r) = Some (Seq ?sl)"
    by (simp add: map_of_as_kwargs)
  have IH: "merge_loop regs (as_kwargs D) (ret @ ?sl)
      = Inr ((ret @ ?sl) @ take (nat (sum_list (map bitsize regs))) (drop (nat (base + bitsize r)) qs))"
  proof (rule Cons.IH)
    show "distinct (map name regs)" using Cons.prems(1) by simp
    show "\<forall>r\<in>set regs. 0 \<le> bitsize r" by (rule rest0)
    show "0 \<le> base + bitsize r" using Cons.prems(3) b0 by simp
    show "base + bitsize r + sum_list (map bitsize regs) \<le> int (length qs)"
      using Cons.prems(4) by simp
    show "\<forall>r'\<in>set regs. map_of D (name r') = map_of (split_loop qs regs ?d' (base + bitsize r)) (name r')"
      using Cons.prems(5) by simp
  qed
  have "take (nat (bitsize r + sum_list (map bitsize regs))) (drop (nat base) qs)
      = take (nat (bitsize r)) (drop (nat base) qs)
        @ take (nat (sum_list (map bitsize regs))) (drop (nat (base + bitsize r)) qs)"
    using b0 sum0 Cons.prems(3)
    by (simp add: nat_add_distrib take_add add.commute)
  then show ?case
    using look len IH sl by simp
qed

lemma split_loop_keys:
  "fst ` set (split_loop qs regs d base) = fst ` set d \<union> name ` set regs"
  by (induction regs arbitrary: d base) (auto simp: dom_update)

lemma as_kwargs_keys: "map fst (as_kwargs d) = map fst d"
  by (induction d) (auto simp: as_kwargs_def)

text \<open>
  Claim C1, as amended. For every \<open>Registers\<close> the constructor accepts with no register
  named \<open>self\<close> (the register sizes not negative, which covers the positive sizes of the
  data model), and every handle sequence \<open>qs\<close> with \<open>len(qs) == bitsize\<close>,
  \<open>merge_qubits(**split_qubits(qs))\<close> returns \<open>qs\<close>.
\<close>

theorem split_merge_roundtrip:
  assumes "Registers_init regs = Inr r"
    and "\<forall>reg\<in>set regs. 0 \<le> bitsize reg"
    and "''self'' \<notin> name ` set regs"
    and "int (length qs) = total_bitsize r"
  shows "merge_qubits r (as_kwargs (split_qubits r qs)) = Inr qs"
proof -
  from assms(1) have d: "distinct (map name regs)" and r: "registers r = regs"
    by (auto simp: Registers_init_eq split: if_splits)
  have "set (map fst (as_kwargs (split_qubits r qs))) = name ` set regs"
    using r by (simp add: as_kwargs_keys split_qubits_def split_loop_keys)
  then have bind: "''self'' \<notin> set (map fst (as_kwargs (split_qubits r qs)))"
    using assms(3) by simp
  have "merge_loop regs (as_kwargs (split_loop qs regs [] 0)) []
          = Inr ([] @ take (nat (sum_list (map bitsize regs))) (drop (nat 0) qs))"
    using d assms(2) assms(4) r
    by (intro merge_split_loop [where d = "[]"]) (simp_all add: total_bitsize_def)
  then have "merge_loop (registers r) (as_kwargs (split_qubits r qs)) [] = Inr qs"
    using assms(4) r by (simp add: split_qubits_def total_bitsize_def)
  then show ?thesis
    using bind by (simp only: merge_qubits_def if_False)
qed

theorem split_merge_roundtrip_witness:
  "Registers_init
       [\<lparr>name = ''ctrl'', bitsize = 1\<rparr>, \<lparr>name = ''x'', bitsize = 2\<rparr>,
         \<lparr>name = ''y'', bitsize = 2\<rparr>]
     = Inr \<lparr>registers = [\<lparr>name = ''ctrl'', bitsize = 1\<rparr>, \<lparr>name = ''x'', bitsize = 2\<rparr>,
                     \<lparr>name = ''y'', bitsize = 2\<rparr>],
        register_dict = [(''ctrl'', \<lparr>name = ''ctrl'', bitsize = 1\<rparr>),
                         (''x'', \<lparr>name = ''x'', bitsize = 2\<rparr>),
                         (''y'', \<lparr>name = ''y'', bitsize = 2\<rparr>)]\<rparr> \<and>
   map bitsize [\<lparr>name = ''ctrl'', bitsize = 1\<rparr>, \<lparr>name = ''x'', bitsize = 2\<rparr>,
         \<lparr>name = ''y'', bitsize = 2\<rparr>] = [1, 2, 2] \<and>
   map name [\<lparr>name = ''ctrl'', bitsize = 1\<rparr>, \<lparr>name = ''x'', bitsize = 2\<rparr>,
         \<lparr>name = ''y'', bitsize = 2\<rparr>] = [''ctrl'', ''x'', ''y''] \<and>
   int (length [''q0'', ''q1'', ''q2'', ''q3'', ''q4''])
     = total_bitsize
       \<lparr>registers = [\<lparr>name = ''ctrl'', bitsize = 1\<rparr>, \<lparr>name = ''x'', bitsize = 2\<rparr>,
                     \<lparr>name = ''y'', bitsize = 2\<rparr>],
        register_dict = [(''ctrl'', \<lparr>name = ''ctrl'', bitsize = 1\<rparr>),
                         (''x'', \<lparr>name = ''x'', bitsize = 2\<rparr>),
                         (''y'', \<lparr>name = ''y'', bitsize = 2\<rparr>)]\<rparr> \<and>
   merge_qubits
       \<lparr>registers = [\<lparr>name = ''ctrl'', bitsize = 1\<rparr>, \<lparr>name = ''x'', bitsize = 2\<rparr>,
                     \<lparr>name = ''y'', bitsize = 2\<rparr>],
        register_dict = [(''ctrl'', \<lparr>name = ''ctrl'', bitsize = 1\<rparr>),
                         (''x'', \<lparr>name = ''x'', bitsize = 2\<rparr>),
                         (''y'', \<lparr>name = ''y'', bitsize = 2\<rparr>)]\<rparr>
       (as_kwargs (split_qubits
         \<lparr>registers = [\<lparr>name = ''ctrl'', bitsize = 1\<rparr>, \<lparr>name = ''x'', bitsize = 2\<rparr>,
                     \<lparr>name = ''y'', bitsize = 2\<rparr>],
        register_dict = [(''ctrl'', \<lparr>name = ''ctrl'', bitsize = 1\<rparr>),
                         (''x'', \<lparr>name = ''x'', bitsize = 2\<rparr>),
                         (''y'', \<lparr>name = ''y'', bitsize = 2\<rparr>)]\<rparr>
         [''q0'', ''q1'', ''q2'', ''q3'', ''q4'']))
     = Inr [''q0'', ''q1'', ''q2'', ''q3'', ''q4'']"
  using split_merge_roundtrip [of
       "[\<lparr>name = ''ctrl'', bitsize = 1\<rparr>, \<lparr>name = ''x'', bitsize = 2\<rparr>,
         \<lparr>name = ''y'', bitsize = 2\<rparr>]"
       "\<lparr>registers = [\<lparr>name = ''ctrl'', bitsize = 1\<rparr>, \<lparr>name = ''x'', bitsize = 2\<rparr>,
                     \<lparr>name = ''y'', bitsize = 2\<rparr>],
        register_dict = [(''ctrl'', \<lparr>name = ''ctrl'', bitsize = 1\<rparr>),
                         (''x'', \<lparr>name = ''x'', bitsize = 2\<rparr>),
                         (''y'', \<lparr>name = ''y'', bitsize = 2\<rparr>)]\<rparr>"
       "[''q0'', ''q1'', ''q2'', ''q3'', ''q4'']"]
  by (simp add: Registers_init_eq name_dict_def total_bitsize_def)

text \<open>
  The claim as stated is about every \<open>Registers\<close> instance. The collection of the one
  register named \<open>self\<close>, of size 1, is accepted by the constructor; \<open>split_qubits\<close> of
  one handle returns the dictionary with the key \<open>self\<close>, and passing it to
  \<open>merge_qubits\<close> as keyword arguments raises \<open>TypeError\<close>.
\<close>

theorem split_merge_roundtrip_counterexample:
  "Registers_init [\<lparr>name = ''self'', bitsize = 1\<rparr>]
     = Inr \<lparr>registers = [\<lparr>name = ''self'', bitsize = 1\<rparr>],
        register_dict = [(''self'', \<lparr>name = ''self'', bitsize = 1\<rparr>)]\<rparr> \<and>
   int (length [''q0''])
     = total_bitsize
       \<lparr>registers = [\<lparr>name = ''self'', bitsize = 1\<rparr>],
        register_dict = [(''self'', \<lparr>name = ''self'', bitsize = 1\<rparr>)]\<rparr> \<and>
   split_qubits
       \<lparr>registers = [\<lparr>name = ''self'', bitsize = 1\<rparr>],
        register_dict = [(''self'', \<lparr>name = ''self'', bitsize = 1\<rparr>)]\<rparr> [''q0'']
     = [(''self'', [''q0''])] \<and>
   merge_qubits
       \<lparr>registers = [\<lparr>name = ''self'', bitsize = 1\<rparr>],
        register_dict = [(''self'', \<lparr>name = ''self'', bitsize = 1\<rparr>)]\<rparr>
       (as_kwargs (split_qubits
         \<lparr>registers = [\<lparr>name = ''self'', bitsize = 1\<rparr>],
        register_dict = [(''self'', \<lparr>name = ''self'', bitsize = 1\<rparr>)]\<rparr> [''q0'']))
     = Inl TypeError"
  by (simp add: Registers_init_eq name_dict_def total_bitsize_def split_qubits_def
        slice_elems_def merge_qubits_def as_kwargs_def)

lemma split_loop_nth:
  assumes "distinct (map name regs)" and "\<forall>r\<in>set regs. 0 \<le> bitsize r" and "0 \<le> base"
    and "i < length regs"
  shows "map_of (split_loop qs regs d base) (name (regs ! i))
           = Some (take (nat (bitsize (regs ! i)))
                     (drop (nat (base + sum_list (map bitsize (take i regs)))) qs))"
  using assms
proof (induction regs arbitrary: d base i)
  case Nil
  then show ?case by simp
next
  case (Cons r regs)
  have b0: "0 \<le> bitsize r" using Cons.prems(2) by simp
  show ?case
  proof (cases i)
    case 0
    have "name r \<notin> name ` set regs" using Cons.prems(1) by auto
    then show ?thesis
      using 0 Cons.prems(3) b0
      by (simp add: split_loop_other update_conv slice_elems_take_drop)
  next
    case (Suc j)
    have "map_of (split_loop qs regs
             (AList.update (name r) (slice_elems qs (Some base) (Some (base + bitsize r)) 1) d)
             (base + bitsize r)) (name (regs ! j))
        = Some (take (nat (bitsize (regs ! j)))
                  (drop (nat (base + bitsize r + sum_list (map bitsize (take j regs)))) qs))"
      using Cons.prems Suc b0 by (intro Cons.IH) simp_all
    then show ?thesis using Suc by (simp add: add.assoc)
  qed
qed

lemma split_loop_truncated:
  assumes "distinct (map name regs)" and "base \<le> int (length qs)"
    and "int (length qs) < base + sum_list (map bitsize regs)"
  shows "\<exists>reg\<in>set regs. \<exists>sub. map_of (split_loop qs regs d base) (name reg) = Some sub
           \<and> int (length sub) < bitsize reg"
  using assms
proof (induction regs arbitrary: d base)
  case Nil
  then show ?case by simp
next
  case (Cons r regs)
  let ?sl = "slice_elems qs (Some base) (Some (base + bitsize r)) 1"
  let ?d' = "AList.update (name r) ?sl d"
  show ?case
  proof (cases "int (length qs) < base + bitsize r")
    case True
    have "name r \<notin> name ` set regs" using Cons.prems(1) by auto
    then have "map_of (split_loop qs (r # regs) d base) (name r) = Some ?sl"
      by (simp add: split_loop_other update_conv)
    moreover have "int (length ?sl) < bitsize r"
      using True Cons.prems(2) by (auto simp: length_slice_elems_1 Let_def max_def min_def)
    ultimately show ?thesis by auto
  next
    case False
    have "\<exists>reg\<in>set regs. \<exists>sub.
            map_of (split_loop qs regs ?d' (base + bitsize r)) (name reg) = Some sub
            \<and> int (length sub) < bitsize reg"
      using Cons.prems False by (intro Cons.IH) simp_all
    then show ?thesis by auto
  qed
qed

text \<open>
  Claim C5. \<open>split_qubits\<close> has no failing branch and checks no length: for every
  handle sequence it returns a dictionary with an entry for every register. When the
  sequence is shorter than the total size, some register receives fewer handles than its
  size; with sizes that are not negative the entry of the \<open>i\<close>-th register is what is
  left of its block, \<open>bitsize\<close> handles from the offset of the register on, cut off at
  the end of the sequence (empty when the offset is beyond it).
\<close>

theorem split_qubits_unchecked:
  "(\<forall>reg\<in>set (registers r). \<exists>sub. map_of (split_qubits r qs) (name reg) = Some sub) \<and>
   (distinct (map name (registers r)) \<and> int (length qs) < total_bitsize r \<longrightarrow>
      (\<exists>reg\<in>set (registers r). \<exists>sub.
          map_of (split_qubits r qs) (name reg) = Some sub \<and> int (length sub) < bitsize reg)) \<and>
   (distinct (map name (registers r)) \<and> (\<forall>reg\<in>set (registers r). 0 \<le> bitsize reg) \<longrightarrow>
      (\<forall>i<length (registers r).
          map_of (split_qubits r qs) (name (registers r ! i))
            = Some (take (nat (bitsize (registers r ! i)))
                      (drop (nat (sum_list (map bitsize (take i (registers r))))) qs))))"
proof (intro conjI impI ballI allI)
  fix reg assume "reg \<in> set (registers r)"
  then show "\<exists>sub. map_of (split_qubits r qs) (name reg) = Some sub"
    unfolding split_qubits_def by (intro split_loop_has_entry) simp
next
  assume "distinct (map name (registers r)) \<and> int (length qs) < total_bitsize r"
  then show "\<exists>reg\<in>set (registers r). \<exists>sub.
      map_of (split_qubits r qs) (name reg) = Some sub \<and> int (length sub) < bitsize reg"
    unfolding split_qubits_def by (intro split_loop_truncated) (simp_all add: total_bitsize_def)
next
  fix i
  assume "distinct (map name (registers r)) \<and> (\<forall>reg\<in>set (registers r). 0 \<le> bitsize reg)"
    and "i < length (registers r)"
  then show "map_of (split_qubits r qs) (name (registers r ! i))
      = Some (take (nat (bitsize (registers r ! i)))
                (drop (nat (sum_list (map bitsize (take i (registers r))))) qs))"
    unfolding split_qubits_def using split_loop_nth [of "registers r" 0 i qs "[]"] by simp
qed

theorem split_qubits_unchecked_witness:
  "distinct (map name (registers
       \<lparr>registers = [\<lparr>name = ''ctrl'', bitsize = 1\<rparr>, \<lparr>name = ''x'', bitsize = 2\<rparr>,
                     \<lparr>name = ''y'', bitsize = 2\<rparr>],
        register_dict = [(''ctrl'', \<lparr>name = ''ctrl'', bitsize = 1\<rparr>),
                         (''x'', \<lparr>name = ''x'', bitsize = 2\<rparr>),
                         (''y'', \<lparr>name = ''y'', bitsize = 2\<rparr>)]\<rparr>)) \<and>
   int (length [''q0'', ''q1'']) < total_bitsize
       \<lparr>registers = [\<lparr>name = ''ctrl'', bitsize = 1\<rparr>, \<lparr>name = ''x'', bitsize = 2\<rparr>,
                     \<lparr>name = ''y'', bitsize = 2\<rparr>],
        register_dict = [(''ctrl'', \<lparr>name = ''ctrl'', bitsize = 1\<rparr>),
                         (''x'', \<lparr>name = ''x'', bitsize = 2\<rparr>),
                         (''y'', \<lparr>name = ''y'', bitsize = 2\<rparr>)]\<rparr> \<and>
   map bitsize (registers
       \<lparr>registers = [\<lparr>name = ''ctrl'', bitsize = 1\<rparr>, \<lparr>name = ''x'', bitsize = 2\<rparr>,
                     \<lparr>name = ''y'', bitsize = 2\<rparr>],
        register_dict = [(''ctrl'', \<lparr>name = ''ctrl'', bitsize = 1\<rparr>),
                         (''x'', \<lparr>name = ''x'', bitsize = 2\<rparr>),
                         (''y'', \<lparr>name = ''y'', bitsize = 2\<rparr>)]\<rparr>) = [1, 2, 2] \<and>
   map_of (split_qubits
       \<lparr>registers = [\<lparr>name = ''ctrl'', bitsize = 1\<rparr>, \<lparr>name = ''x'', bitsize = 2\<rparr>,
                     \<lparr>name = ''y'', bitsize = 2\<rparr>],
        register_dict = [(''ctrl'', \<lparr>name = ''ctrl'', bitsize = 1\<rparr>),
                         (''x'', \<lparr>name = ''x'', bitsize = 2\<rparr>),
                         (''y'', \<lparr>name = ''y'', bitsize = 2\<rparr>)]\<rparr> [''q0'', ''q1'']) ''y'' = Some [] \<and>
   split_qubits
       \<lparr>registers = [\<lparr>name = ''ctrl'', bitsize = 1\<rparr>, \<lparr>name = ''x'', bitsize = 2\<rparr>,
                     \<lparr>name = ''y'', bitsize = 2\<rparr>],
        register_dict = [(''ctrl'', \<lparr>name = ''ctrl'', bitsize = 1\<rparr>),
                         (''x'', \<lparr>name = ''x'', bitsize = 2\<rparr>),
                         (''y'', \<lparr>name = ''y'', bitsize = 2\<rparr>)]\<rparr> [''q0'', ''q1'']
     = [(''ctrl'', [''q0'']), (''x'', [''q1'']), (''y'', [])]"
  using split_qubits_unchecked [of
       "\<lparr>registers = [\<lparr>name = ''ctrl'', bitsize = 1\<rparr>, \<lparr>name = ''x'', bitsize = 2\<rparr>,
                     \<lparr>name = ''y'', bitsize = 2\<rparr>],
        register_dict = [(''ctrl'', \<lparr>name = ''ctrl'', bitsize = 1\<rparr>),
                         (''x'', \<lparr>name = ''x'', bitsize = 2\<rparr>),
                         (''y'', \<lparr>name = ''y'', bitsize = 2\<rparr>)]\<rparr>" "[''q0'', ''q1'']"]
  by (simp add: total_bitsize_def split_qubits_def slice_elems_def)

section \<open>Named qubits\<close>

lemma digit_char_inj: "a < 10 \<Longrightarrow> b < 10 \<Longrightarrow> digit_char a = digit_char b \<Longrightarrow> a = b"
proof -
  assume a: "a < 10" and b: "b < 10" and e: "digit_char a = digit_char b"
  have d: "distinct ''0123456789''" by simp
  have "length ''0123456789'' = 10" by simp
  with a b e d show "a = b"
    unfolding digit_char_def by (simp only: nth_eq_iff_index_eq)
qed

lemma digit_char_digit: "d < 10 \<Longrightarrow> digit_char d \<in> set ''0123456789''"
  unfolding digit_char_def by (rule nth_mem) simp

lemma str_nat_nonempty: "str_nat n \<noteq> []"
  by (subst str_nat.simps) simp

lemma str_nat_digits: "set (str_nat n) \<subseteq> set ''0123456789''"
proof (induction n rule: str_nat.induct)
  case (1 n)
  show ?case
  proof (cases "n < 10")
    case True
    then show ?thesis using digit_char_digit [of n] by (subst str_nat.simps) simp
  next
    case False
    have "n mod 10 < 10" by simp
    then have "digit_char (n mod 10) \<in> set ''0123456789''" by (rule digit_char_digit)
    then show ?thesis using False 1 by (subst str_nat.simps) simp
  qed
qed

lemma str_nat_inj: "str_nat m = str_nat n \<Longrightarrow> m = n"
proof (induction m arbitrary: n rule: str_nat.induct)
  case (1 m)
  have em: "str_nat m = (if m < 10 then [digit_char m] else str_nat (m div 10) @ [digit_char (m mod 10)])"
    by (rule str_nat.simps)
  have en: "str_nat n = (if n < 10 then [digit_char n] else str_nat (n div 10) @ [digit_char (n mod 10)])"
    by (rule str_nat.simps)
  show ?case
  proof (cases "m < 10")
    case m: True
    show ?thesis
    proof (cases "n < 10")
      case True
      then show ?thesis using m 1(2) em en by (simp add: digit_char_inj)
    next
      case False
      then show ?thesis using m 1(2) em en str_nat_nonempty [of "n div 10"] by simp
    qed
  next
    case m: False
    show ?thesis
    proof (cases "n < 10")
      case True
      then show ?thesis using m 1(2) em en str_nat_nonempty [of "m div 10"] by simp
    next
      case False
      have "str_nat (m div 10) = str_nat (n div 10)"
        and d: "digit_char (m mod 10) = digit_char (n mod 10)"
        using m False 1(2) em en by simp_all
      then have "m div 10 = n div 10" using 1(1) m by blast
      moreover have "m mod 10 = n mod 10"
        using d by (intro digit_char_inj) simp_all
      ultimately show ?thesis by (metis div_mult_mod_eq)
    qed
  qed
qed

lemma distinct_NamedQubit_range: "distinct (NamedQubit_range n prefix)"
  unfolding NamedQubit_range_def
  by (auto simp: distinct_map intro!: inj_onI dest: str_nat_inj)

lemma distinct_qubits_for_reg: "distinct (qubits_for_reg nm bs)"
  by (simp add: qubits_for_reg_def distinct_NamedQubit_range)

lemma length_qubits_for_reg: "length (qubits_for_reg nm bs) = nat bs"
  by (simp add: qubits_for_reg_def NamedQubit_range_def)

lemma update_fresh: "k \<notin> fst ` set d \<Longrightarrow> AList.update k v d = d @ [(k, v)]"
  by (induction d) auto

lemma foldl_update_fresh:
  "distinct (map kf xs) \<Longrightarrow> kf ` set xs \<inter> fst ` set d = {} \<Longrightarrow>
     foldl (\<lambda>d x. AList.update (kf x) (vf x) d) d xs = d @ map (\<lambda>x. (kf x, vf x)) xs"
proof (induction xs arbitrary: d)
  case Nil
  then show ?case by simp
next
  case (Cons x xs)
  have fresh: "kf x \<notin> fst ` set d" using Cons.prems(2) by auto
  have "foldl (\<lambda>d x. AList.update (kf x) (vf x) d) (d @ [(kf x, vf x)]) xs
          = (d @ [(kf x, vf x)]) @ map (\<lambda>x. (kf x, vf x)) xs"
    using Cons.prems by (intro Cons.IH) auto
  then show ?case using fresh by (simp add: update_fresh)
qed

lemma get_named_qubits_entries:
  "distinct (map name (registers r)) \<Longrightarrow>
     get_named_qubits r
       = map (\<lambda>reg. (name reg, qubits_for_reg (name reg) (bitsize reg))) (registers r)"
  unfolding get_named_qubits_def
  using foldl_update_fresh [of name "registers r" "[]" "\<lambda>reg. qubits_for_reg (name reg) (bitsize reg)"]
  by simp


lemma qubit_name_shape:
  "q \<in> set (qubits_for_reg nm bs) \<Longrightarrow> \<exists>ds. q = NamedQubit (nm @ ds) \<and> set ds \<subseteq> set ''0123456789''"
proof (cases "bs = 1")
  case True
  assume "q \<in> set (qubits_for_reg nm bs)"
  with True have "q = NamedQubit (nm @ [])" by (simp add: qubits_for_reg_def)
  then show ?thesis by (intro exI [of _ "[]"]) simp
next
  case False
  assume "q \<in> set (qubits_for_reg nm bs)"
  with False obtain i where "q = NamedQubit (nm @ str_nat i)"
    by (auto simp: qubits_for_reg_def NamedQubit_range_def)
  then show ?thesis using str_nat_digits [of i] by blast
qed

lemma digit_suffix_unique:
  assumes "a @ ds = b @ es" and "set ds \<subseteq> D" and "set es \<subseteq> D"
    and "a = [] \<or> last a \<notin> D" and "b = [] \<or> last b \<notin> D"
  shows "a = b"
proof -
  from assms(1) obtain us where "(a = b @ us \<and> us @ ds = es) \<or> (a @ us = b \<and> ds = us @ es)"
    by (auto simp: append_eq_append_conv2)
  then show ?thesis
  proof
    assume h: "a = b @ us \<and> us @ ds = es"
    show ?thesis
    proof (cases "us = []")
      case True
      then show ?thesis using h by simp
    next
      case False
      then have "last a = last us" and "a \<noteq> []" using h by simp_all
      moreover have "last us \<in> D" using False h assms(3) by auto
      ultimately show ?thesis using assms(4) by simp
    qed
  next
    assume h: "a @ us = b \<and> ds = us @ es"
    show ?thesis
    proof (cases "us = []")
      case True
      then show ?thesis using h by simp
    next
      case False
      then have "last b = last us" and "b \<noteq> []" using h by auto
      moreover have "last us \<in> D" using False h assms(2) by auto
      ultimately show ?thesis using assms(5) by simp
    qed
  qed
qed

lemma qubits_disjoint:
  assumes "nm \<noteq> nm'" and "no_digit_end nm" and "no_digit_end nm'"
  shows "set (qubits_for_reg nm bs) \<inter> set (qubits_for_reg nm' bs') = {}"
proof (rule ccontr)
  assume "set (qubits_for_reg nm bs) \<inter> set (qubits_for_reg nm' bs') \<noteq> {}"
  then obtain q where q: "q \<in> set (qubits_for_reg nm bs)" and q': "q \<in> set (qubits_for_reg nm' bs')"
    by auto
  from qubit_name_shape [OF q] obtain ds where
    ds: "q = NamedQubit (nm @ ds)" "set ds \<subseteq> set ''0123456789''" by blast
  from qubit_name_shape [OF q'] obtain es where
    es: "q = NamedQubit (nm' @ es)" "set es \<subseteq> set ''0123456789''" by blast
  have "nm @ ds = nm' @ es" using ds(1) es(1) by simp
  then have "nm = nm'"
    using ds(2) es(2) assms(2,3) unfolding no_digit_end_def by (rule digit_suffix_unique)
  then show False using assms(1) by simp
qed

lemma distinct_all_qubits:
  assumes "distinct (map name regs)" and "\<forall>reg\<in>set regs. no_digit_end (name reg)"
  shows "distinct (concat (map (\<lambda>reg. qubits_for_reg (name reg) (bitsize reg)) regs))"
  using assms
proof (induction regs)
  case Nil
  then show ?case by simp
next
  case (Cons r regs)
  have "set (qubits_for_reg (name r) (bitsize r)) \<inter> set (qubits_for_reg (name r') (bitsize r')) = {}"
    if "r' \<in> set regs" for r'
  proof (rule qubits_disjoint)
    show "name r \<noteq> name r'" using Cons.prems(1) that by auto
    show "no_digit_end (name r)" using Cons.prems(2) by simp
    show "no_digit_end (name r')" using Cons.prems(2) that by simp
  qed
  then show ?case
    using Cons by (auto simp: distinct_qubits_for_reg)
qed

lemma get_named_qubits_fold:
  "get_named_qubits r
     = foldl (\<lambda>d (n, b). AList.update n (qubits_for_reg n b) d) []
         (map (\<lambda>reg. (name reg, bitsize reg)) (registers r))"
  by (simp add: get_named_qubits_def foldl_map)

text \<open>
  Claim C9, as amended. For registers with different names \<open>get_named_qubits\<close> returns
  one entry per register, in order: the single handle named after the register when its
  size is 1, otherwise \<open>bitsize\<close> handles (none for a size below 1) named by the
  register's name followed by the decimal index. The handles of one register are
  mutually distinct. The handles of different registers are distinct whenever no
  register name ends in a decimal digit. The result is determined by the names and
  sizes of the registers: a second call returns equal handles.
\<close>

theorem get_named_qubits_handles:
  "(distinct (map name (registers r)) \<longrightarrow>
      get_named_qubits r
        = map (\<lambda>reg. (name reg, qubits_for_reg (name reg) (bitsize reg))) (registers r)) \<and>
   qubits_for_reg nm 1 = [NamedQubit nm] \<and>
   (bs \<noteq> 1 \<longrightarrow>
      qubits_for_reg nm bs = map (\<lambda>i. NamedQubit (nm @ str_nat i)) [0..<nat bs]) \<and>
   length (qubits_for_reg nm bs) = nat bs \<and>
   distinct (qubits_for_reg nm bs) \<and>
   (distinct (map name (registers r)) \<and> (\<forall>reg\<in>set (registers r). no_digit_end (name reg)) \<longrightarrow>
      distinct (concat (map snd (get_named_qubits r)))) \<and>
   (map (\<lambda>reg. (name reg, bitsize reg)) (registers r)
      = map (\<lambda>reg. (name reg, bitsize reg)) (registers r') \<longrightarrow>
      get_named_qubits r = get_named_qubits r')"
proof (intro conjI impI)
  assume "distinct (map name (registers r))"
  then show "get_named_qubits r
      = map (\<lambda>reg. (name reg, qubits_for_reg (name reg) (bitsize reg))) (registers r)"
    by (rule get_named_qubits_entries)
next
  show "qubits_for_reg nm 1 = [NamedQubit nm]" by (simp add: qubits_for_reg_def)
next
  assume "bs \<noteq> 1"
  then show "qubits_for_reg nm bs = map (\<lambda>i. NamedQubit (nm @ str_nat i)) [0..<nat bs]"
    by (simp add: qubits_for_reg_def NamedQubit_range_def)
next
  show "length (qubits_for_reg nm bs) = nat bs" by (rule length_qubits_for_reg)
next
  show "distinct (qubits_for_reg nm bs)" by (rule distinct_qubits_for_reg)
next
  assume h: "distinct (map name (registers r)) \<and> (\<forall>reg\<in>set (registers r). no_digit_end (name reg))"
  then have "distinct (concat (map (\<lambda>reg. qubits_for_reg (name reg) (bitsize reg)) (registers r)))"
    by (intro distinct_all_qubits) simp_all
  then show "distinct (concat (map snd (get_named_qubits r)))"
    using h by (simp add: get_named_qubits_entries comp_def)
next
  assume "map (\<lambda>reg. (name reg, bitsize reg)) (registers r)
      = map (\<lambda>reg. (name reg, bitsize reg)) (registers r')"
  then show "get_named_qubits r = get_named_qubits r'"
    by (simp only: get_named_qubits_fold)
qed

theorem get_named_qubits_handles_witness:
  "distinct (map name (registers
       \<lparr>registers = [\<lparr>name = ''x'', bitsize = 1\<rparr>, \<lparr>name = ''y'', bitsize = 3\<rparr>],
        register_dict = [(''x'', \<lparr>name = ''x'', bitsize = 1\<rparr>),
                         (''y'', \<lparr>name = ''y'', bitsize = 3\<rparr>)]\<rparr>)) \<and>
   no_digit_end ''x'' \<and> no_digit_end ''y'' \<and>
   get_named_qubits
       \<lparr>registers = [\<lparr>name = ''x'', bitsize = 1\<rparr>, \<lparr>name = ''y'', bitsize = 3\<rparr>],
        register_dict = [(''x'', \<lparr>name = ''x'', bitsize = 1\<rparr>),
                         (''y'', \<lparr>name = ''y'', bitsize = 3\<rparr>)]\<rparr>
     = [(''x'', [NamedQubit ''x'']),
        (''y'', [NamedQubit ''y0'', NamedQubit ''y1'', NamedQubit ''y2''])] \<and>
   distinct (concat (map snd (get_named_qubits
       \<lparr>registers = [\<lparr>name = ''x'', bitsize = 1\<rparr>, \<lparr>name = ''y'', bitsize = 3\<rparr>],
        register_dict = [(''x'', \<lparr>name = ''x'', bitsize = 1\<rparr>),
                         (''y'', \<lparr>name = ''y'', bitsize = 3\<rparr>)]\<rparr>)))"
  using get_named_qubits_handles [of
       "\<lparr>registers = [\<lparr>name = ''x'', bitsize = 1\<rparr>, \<lparr>name = ''y'', bitsize = 3\<rparr>],
        register_dict = [(''x'', \<lparr>name = ''x'', bitsize = 1\<rparr>),
                         (''y'', \<lparr>name = ''y'', bitsize = 3\<rparr>)]\<rparr>" "''x''" 1
       "\<lparr>registers = [\<lparr>name = ''x'', bitsize = 1\<rparr>, \<lparr>name = ''y'', bitsize = 3\<rparr>],
        register_dict = [(''x'', \<lparr>name = ''x'', bitsize = 1\<rparr>),
                         (''y'', \<lparr>name = ''y'', bitsize = 3\<rparr>)]\<rparr>"]
  by (simp add: no_digit_end_def qubits_for_reg_def NamedQubit_range_def str_nat.simps
        upt_conv_Cons numeral_3_eq_3 digit_char_def)

text \<open>
  The claim as stated has all handles of one call mutually distinct. With the registers
  \<open>x\<close> of size 2 and \<open>x0\<close> of size 1 the handle named \<open>x0\<close> is returned for both.
\<close>

theorem get_named_qubits_counterexample:
  "Registers_init [\<lparr>name = ''x'', bitsize = 2\<rparr>, \<lparr>name = ''x0'', bitsize = 1\<rparr>]
     = Inr \<lparr>registers = [\<lparr>name = ''x'', bitsize = 2\<rparr>, \<lparr>name = ''x0'', bitsize = 1\<rparr>],
        register_dict = [(''x'', \<lparr>name = ''x'', bitsize = 2\<rparr>),
                         (''x0'', \<lparr>name = ''x0'', bitsize = 1\<rparr>)]\<rparr> \<and>
   get_named_qubits
       \<lparr>registers = [\<lparr>name = ''x'', bitsize = 2\<rparr>, \<lparr>name = ''x0'', bitsize = 1\<rparr>],
        register_dict = [(''x'', \<lparr>name = ''x'', bitsize = 2\<rparr>),
                         (''x0'', \<lparr>name = ''x0'', bitsize = 1\<rparr>)]\<rparr>
     = [(''x'', [NamedQubit ''x0'', NamedQubit ''x1'']), (''x0'', [NamedQubit ''x0''])] \<and>
   \<not> distinct (concat (map snd (get_named_qubits
       \<lparr>registers = [\<lparr>name = ''x'', bitsize = 2\<rparr>, \<lparr>name = ''x0'', bitsize = 1\<rparr>],
        register_dict = [(''x'', \<lparr>name = ''x'', bitsize = 2\<rparr>),
                         (''x0'', \<lparr>name = ''x0'', bitsize = 1\<rparr>)]\<rparr>)))"
  by (simp add: Registers_init_eq name_dict_def get_named_qubits_def qubits_for_reg_def
        NamedQubit_range_def str_nat.simps upt_conv_Cons numeral_2_eq_2 digit_char_def)

section \<open>Flat indices inside \<open>int64\<close>\<close>

text \<open>
  Where the iteration lengths and their product stay within \<open>int64\<close> the code computes
  what the specification describes: \<open>total_iteration_size\<close> is the product,
  \<open>to_flat_idx\<close> is the row-major index of every tuple in range, and over the
  enumeration of all tuples it runs through \<open>0, 1, ..., total - 1\<close> in this order.
\<close>

lemma row_major_index_Nil: "row_major_index ls [] = 0"
  by (simp add: row_major_index_def)

lemma row_major_index_Cons:
  "row_major_index (l # ls) (v # vs) = v * prod_list ls + row_major_index ls vs"
proof -
  have "[0..<length (v # vs)] = 0 # map Suc [0..<length vs]"
    by (simp add: upt_conv_Cons map_Suc_upt del: upt_Suc)
  then show ?thesis
    by (simp add: row_major_index_def comp_def del: upt_Suc)
qed

lemma accumulate_from_snoc:
  "accumulate_from a (ys @ [x]) = accumulate_from a ys @ [a * prod_list ys * x]"
  by (induction ys arbitrary: a) (simp_all add: mult.assoc)

lemma multiply_accumulate_snoc:
  "multiply_accumulate (ys @ [x]) = multiply_accumulate ys @ [prod_list ys * x]"
  by (cases ys) (simp_all add: multiply_accumulate_def accumulate_from_snoc)

lemma suffix_table_Cons:
  "rev (multiply_accumulate (rev (x # xs))) @ [1]
     = (x * prod_list xs) # (rev (multiply_accumulate (rev xs)) @ [1])"
  by (simp add: multiply_accumulate_snoc mult.commute)

lemma suffix_table_hd:
  "(rev (multiply_accumulate (rev xs)) @ [1]) ! 0 = prod_list xs"
proof (cases xs)
  case Nil
  then show ?thesis by (simp add: multiply_accumulate_def)
next
  case (Cons a list)
  then show ?thesis by (simp only: suffix_table_Cons nth_Cons_0 prod_list.Cons)
qed

lemma suffix_table_length:
  "length (rev (multiply_accumulate (rev xs)) @ [1]) = Suc (length xs)"
proof (induction xs)
  case Nil
  then show ?case by (simp add: multiply_accumulate_def)
next
  case (Cons a xs)
  then show ?case by (simp only: suffix_table_Cons length_Cons)
qed

lemma flat_sum_shift:
  "flat_sum (x # sp) (Suc i) vs acc = flat_sum sp i vs acc"
  by (induction vs arbitrary: i acc) simp_all

lemma prod_list_word_of_int:
  "prod_list (map word_of_int ls :: int64 list) = word_of_int (prod_list ls)"
  by (induction ls) simp_all

lemma flat_sum_row_major:
  "length vs = length ls \<Longrightarrow>
     flat_sum (rev (multiply_accumulate (map word_of_int (rev ls))) @ [1]) 0 vs acc
       = Inr (acc + word_of_int (row_major_index ls vs))"
proof (induction ls arbitrary: vs acc)
  case Nil
  then show ?case by (simp add: row_major_index_Nil)
next
  case (Cons l ls)
  then obtain v vs' where vs: "vs = v # vs'" and len: "length vs' = length ls"
    by (cases vs) auto
  let ?T = "rev (multiply_accumulate (rev (map word_of_int ls))) @ [1::int64]"
  have T: "rev (multiply_accumulate (map word_of_int (rev (l # ls)))) @ [1::int64]
             = (word_of_int l * prod_list (map word_of_int ls)) # ?T"
    using suffix_table_Cons [of "word_of_int l" "map word_of_int ls"] by (simp add: rev_map)
  have h: "?T ! 0 = word_of_int (prod_list ls)"
    by (simp only: suffix_table_hd prod_list_word_of_int)
  have pos: "0 < length ?T" by (simp only: suffix_table_length)
  have "flat_sum ((word_of_int l * prod_list (map word_of_int ls)) # ?T) 0 (v # vs') acc
          = flat_sum ?T 0 vs' (acc + word_of_int v * ?T ! 0)"
    using pos by (simp add: flat_sum_shift)
  also have "\<dots> = Inr (acc + word_of_int v * ?T ! 0 + word_of_int (row_major_index ls vs'))"
    using Cons.IH [OF len] by (simp add: rev_map)
  also have "\<dots> = Inr (acc + word_of_int (row_major_index (l # ls) (v # vs')))"
    by (simp only: h row_major_index_Cons wi_hom_mult wi_hom_add add.assoc)
  finally show ?case using T vs by simp
qed

lemma row_major_index_bounds:
  "in_range ls vs \<Longrightarrow> 0 \<le> row_major_index ls vs \<and> row_major_index ls vs < prod_list ls"
  unfolding in_range_def
proof (induction vs ls rule: list_all2_induct)
  case Nil
  then show ?case by (simp add: row_major_index_Nil)
next
  case (Cons v vs l ls)
  let ?P = "prod_list ls" and ?r = "row_major_index ls vs"
  have r: "0 \<le> ?r" "?r < ?P" using Cons.IH by simp_all
  have v: "0 \<le> v" "v + 1 \<le> l" using Cons.hyps(1) by simp_all
  have P: "0 \<le> ?P" using r by linarith
  have "v * ?P + ?r < (v + 1) * ?P" using r by (simp add: algebra_simps)
  also have "\<dots> \<le> l * ?P" using v(2) P by (rule mult_right_mono)
  finally have "v * ?P + ?r < l * ?P" .
  moreover have "0 \<le> v * ?P + ?r" using v(1) P r(1) by simp
  ultimately show ?case by (simp add: row_major_index_Cons)
qed

lemma sint_word_of_int_64:
  "- (2 ^ 63) \<le> x \<Longrightarrow> x < 2 ^ 63 \<Longrightarrow> sint (word_of_int x :: int64) = x"
  by (simp add: sint_sbintrunc' signed_take_bit_int_eq_self)

lemma in_range_length: "in_range ls vs \<Longrightarrow> length vs = length ls"
  unfolding in_range_def by (rule list_all2_lengthD)

lemma to_flat_idx_row_major:
  assumes "SelectionRegisters_init regs = Inr r"
    and "in_range (iteration_lengths r) vs"
    and "prod_list (iteration_lengths r) < 2 ^ 63"
  shows "to_flat_idx r vs = Inr (row_major_index (iteration_lengths r) vs)"
proof -
  let ?ls = "map iteration_length regs"
  from assms(1) have regs: "registers r = regs" and ls: "iteration_lengths r = ?ls"
    and sp: "suffix_prod r = rev (multiply_accumulate (map word_of_int (rev ?ls))) @ [1]"
    by (auto simp: SelectionRegisters_init_eq split: if_splits)
  have len: "length vs = length ?ls"
    using assms(2) ls by (simp add: in_range_length)
  have b: "0 \<le> row_major_index ?ls vs" "row_major_index ?ls vs < prod_list ?ls"
    using row_major_index_bounds [OF assms(2)] ls by simp_all
  then have "sint (word_of_int (row_major_index ?ls vs) :: int64) = row_major_index ?ls vs"
    using assms(3) ls by (intro sint_word_of_int_64) simp_all
  then show ?thesis
    using len regs ls sp flat_sum_row_major [OF len, of 0]
    by (simp add: to_flat_idx_def)
qed

lemma concat_blocks:
  "concat (map (\<lambda>a. map (\<lambda>k. int a * int p + int k) [0..<p]) [0..<n]) = map int [0..<n * p]"
proof (induction n)
  case 0
  then show ?case by simp
next
  case (Suc n)
  have "map (\<lambda>k. int n * int p + int k) [0..<p] = map int (map (\<lambda>k. k + n * p) [0..<p])"
    by (simp add: add.commute)
  also have "\<dots> = map int [n * p..<n * p + p]"
    by (simp only: map_add_upt add.commute)
  finally have blk: "map (\<lambda>k. int n * int p + int k) [0..<p] = map int [n * p..<n * p + p]" .
  have "Suc n * p = n * p + p" by simp
  then have "[0..<Suc n * p] = [0..<n * p] @ [n * p..<n * p + p]"
    by (simp only: upt_add_eq_append [OF le0])
  then show ?case using Suc blk by simp
qed

lemma index_tuples_in_range:
  "t \<in> set (index_tuples ls) \<Longrightarrow> in_range ls t"
proof (induction ls arbitrary: t)
  case Nil
  then show ?case by (simp add: in_range_def)
next
  case (Cons l ls)
  then obtain v t' where "t = int v # t'" "v < nat l" "t' \<in> set (index_tuples ls)"
    by auto
  then show ?case using Cons.IH [of t'] by (simp add: in_range_def)
qed

lemma row_major_index_enumeration:
  "\<forall>l\<in>set ls. 0 \<le> l \<Longrightarrow>
     map (row_major_index ls) (index_tuples ls) = map int [0..<nat (prod_list ls)]"
proof (induction ls)
  case Nil
  then show ?case by (simp add: row_major_index_Nil)
next
  case (Cons l ls)
  let ?p = "nat (prod_list ls)"
  have l0: "0 \<le> l" and rest: "\<forall>l\<in>set ls. 0 \<le> l" using Cons.prems by simp_all
  have P0: "0 \<le> prod_list ls" using rest by (intro prod_list_nonneg) auto
  have IH: "map (row_major_index ls) (index_tuples ls) = map int [0..<?p]"
    using Cons.IH rest by simp
  have "map (row_major_index (l # ls)) (index_tuples (l # ls))
      = concat (map (\<lambda>a. map (\<lambda>t. int a * prod_list ls + row_major_index ls t) (index_tuples ls))
                  [0..<nat l])"
    by (simp add: map_concat comp_def row_major_index_Cons)
  also have "\<dots> = concat (map (\<lambda>a. map (\<lambda>k. int a * prod_list ls + k)
                                   (map (row_major_index ls) (index_tuples ls))) [0..<nat l])"
    by (simp add: comp_def)
  also have "\<dots> = concat (map (\<lambda>a. map (\<lambda>k. int a * int ?p + int k) [0..<?p]) [0..<nat l])"
    using P0 by (simp only: IH) (simp add: comp_def)
  also have "\<dots> = map int [0..<nat l * ?p]"
    by (rule concat_blocks)
  also have "nat l * ?p = nat (prod_list (l # ls))"
    using l0 P0 by (simp add: nat_mult_distrib)
  finally show ?case .
qed

lemma total_iteration_size_exact:
  assumes "\<forall>l\<in>set (iteration_lengths r). 0 \<le> l \<and> fits_int64 l"
    and "fits_int64 (prod_list (iteration_lengths r))"
  shows "total_iteration_size r = prod_list (iteration_lengths r)"
  using assms(2) unfolding total_iteration_size_def fits_int64_def prod_list_word_of_int
  by (intro sint_word_of_int_64) simp_all

lemma to_flat_idx_enumeration:
  assumes "SelectionRegisters_init regs = Inr r"
    and "\<forall>l\<in>set (iteration_lengths r). 0 \<le> l \<and> fits_int64 l"
    and "prod_list (iteration_lengths r) < 2 ^ 63"
  shows "map (to_flat_idx r) (index_tuples (iteration_lengths r))
           = map (\<lambda>k. Inr (int k)) [0..<nat (prod_list (iteration_lengths r))]"
proof -
  let ?ls = "iteration_lengths r"
  have "map (to_flat_idx r) (index_tuples ?ls) = map (\<lambda>t. Inr (row_major_index ?ls t)) (index_tuples ?ls)"
    using assms(1,3) by (intro map_cong refl to_flat_idx_row_major) (simp_all add: index_tuples_in_range)
  also have "\<dots> = map Inr (map (row_major_index ?ls) (index_tuples ?ls))"
    by (simp add: comp_def)
  also have "\<dots> = map (\<lambda>k. Inr (int k)) [0..<nat (prod_list ?ls)]"
  proof -
    have "\<forall>l\<in>set ?ls. 0 \<le> l" using assms(2) by simp
    then show ?thesis
      by (simp only: row_major_index_enumeration) (simp add: comp_def)
  qed
  finally show ?thesis .
qed

end
